theory Spec2Isabelle
  imports Main "HOL-Library.Sublist"
begin

section \<open>Extract Strings (extract-strings.ts)\<close>

text \<open>
  The text is a list of characters, as the \<^verbatim>\<open>for (const char of text)\<close> loop
  sees it. The three characters the function names are ASCII:
  the asterisk appended to the text, the double quote (code \<open>0x22\<close>) that
  \<^verbatim>\<open>isSingleQuote\<close> compares with, and the single quote (code \<open>0x27\<close>) pushed
  for an escaped quote. Every other character is treated alike: it is only compared
  with the double quote and copied.
\<close>

datatype State =
    Outside
  | Inside (parsed: string)
  | Transition (parsed: string)

datatype error = UnmatchedSingleQuote

text \<open>
  One iteration of the loop body: the parsing state and the array
  \<^verbatim>\<open>extractedStrings\<close> before the character, and after it.
\<close>

fun step :: "State \<times> string list \<Rightarrow> char \<Rightarrow> State \<times> string list" where
  "step (Outside, extractedStrings) c =
     (let isSingleQuote = (c = CHR 0x22) in
      if isSingleQuote then (Inside [], extractedStrings)
      else (Outside, extractedStrings))"
| "step (Inside p, extractedStrings) c =
     (let isSingleQuote = (c = CHR 0x22) in
      if isSingleQuote then (Transition p, extractedStrings)
      else (Inside (p @ [c]), extractedStrings))"
| "step (Transition p, extractedStrings) c =
     (let isSingleQuote = (c = CHR 0x22) in
      if isSingleQuote then (Inside (p @ [CHR 0x27]), extractedStrings)
      else (Outside, extractedStrings @ [p]))"

text \<open>The \<^verbatim>\<open>for\<close> loop over the characters that are left.\<close>

fun scan :: "State \<times> string list \<Rightarrow> string \<Rightarrow> State \<times> string list" where
  "scan s [] = s"
| "scan s (c # cs) = scan (step s c) cs"

definition extractStrings :: "string \<Rightarrow> error + string list" where
  "extractStrings text =
     (case scan (Outside, []) (text @ ''*'') of
        (state, extractedStrings) \<Rightarrow>
          if state \<noteq> Outside then Inl UnmatchedSingleQuote
          else Inr extractedStrings)"

subsection \<open>The generator of the property test (extract-strings.test.ts)\<close>

text \<open>
  \<^verbatim>\<open>repr\<close> gives a string as it is written in the text: single quotes doubled,
  the whole wrapped in single quotes.
\<close>

definition repr :: "string \<Rightarrow> string" where
  "repr s =
     (let withEscapedQuotes =
        concat (map (\<lambda>char. if char = CHR 0x27 then [CHR 0x27, CHR 0x27] else [char]) s)
      in [CHR 0x27] @ withEscapedQuotes @ [CHR 0x27])"

text \<open>\<^verbatim>\<open>roundrobin\<close> of itertools, on two lists: one element of each in turn.\<close>

function roundrobin :: "'a list \<Rightarrow> 'a list \<Rightarrow> 'a list" where
  "roundrobin [] ys = ys"
| "roundrobin (x # xs) ys = x # roundrobin ys xs"
  by pat_completeness auto
termination
  by (relation "measure (\<lambda>(xs, ys). length xs + length ys)") auto

text \<open>
  The filter of the generator: there is one more non-string portion than strings,
  no portion holds a single quote, and every portion but the first and the last
  is non-empty.
\<close>

definition validPortions :: "string list \<Rightarrow> string list \<Rightarrow> bool" where
  "validPortions nonStringPortions extractedStrings =
     (let n = length extractedStrings in
      length nonStringPortions = n + 1 \<and>
      list_all (\<lambda>s. list_all (\<lambda>c. c \<noteq> CHR 0x27) s) nonStringPortions \<and>
      list_all (\<lambda>i. i = 0 \<or> i = n \<or> length (nonStringPortions ! i) > 0) [0 ..< n + 1])"

definition textOf :: "string list \<Rightarrow> string list \<Rightarrow> string" where
  "textOf nonStringPortions extractedStrings =
     concat (roundrobin nonStringPortions (map repr extractedStrings))"

section \<open>Subsequence Indices (subsequence-indices.ts)\<close>

definition reachedEndOfList :: "'a list \<Rightarrow> nat \<Rightarrow> bool" where
  "reachedEndOfList arr index = (index = length arr)"

text \<open>
  \<^verbatim>\<open>arr[index]\<close>: an index past the end reads \<^verbatim>\<open>undefined\<close>, which is \<open>None\<close>
  here; two reads are compared with \<^verbatim>\<open>===\<close>.
\<close>

definition at :: "'a list \<Rightarrow> nat \<Rightarrow> 'a option" where
  "at arr index = (if index < length arr then Some (arr ! index) else None)"

text \<open>
  The \<^verbatim>\<open>while (true)\<close> loop. Its result is \<open>None\<close> when the loop never returns,
  \<open>Some None\<close> when it returns \<^verbatim>\<open>null\<close>, and \<open>Some (Some indices)\<close> when it
  returns the list of indices.
\<close>

partial_function (option) loop ::
  "'a list \<Rightarrow> 'a list \<Rightarrow> nat list \<Rightarrow> nat \<Rightarrow> nat \<Rightarrow> nat list option option" where
  "loop arr sub indices arrIndex subIndex =
     (if reachedEndOfList sub subIndex then Some (Some indices)
      else if reachedEndOfList arr arrIndex then Some None
      else if at arr arrIndex = at sub subIndex
        then loop arr sub (indices @ [arrIndex]) (arrIndex + 1) (subIndex + 1)
        else loop arr sub indices (arrIndex + 1) subIndex)"

declare loop.simps [code]

definition subsequence_indices :: "'a list \<Rightarrow> 'a list \<Rightarrow> nat list option option" where
  "subsequence_indices arr sub = loop arr sub [] 0 0"

section \<open>Auxiliary notions for the proofs\<close>

text \<open>
  The characters held by a loop state: those of the string being parsed, if any,
  and those of the strings extracted so far.
\<close>

definition charsOf :: "State \<times> string list \<Rightarrow> char set" where
  "charsOf s =
     (case fst s of Outside \<Rightarrow> {} | Inside p \<Rightarrow> set p | Transition p \<Rightarrow> set p)
       \<union> (\<Union>x \<in> set (snd s). set x)"

section \<open>Properties of Extract Strings\<close>

subsection \<open>The loop\<close>

lemma scan_append: "scan s (xs @ ys) = scan (scan s xs) ys"
  by (induction xs arbitrary: s) simp_all

lemma scan_Outside_plain:
  "CHR 0x22 \<notin> set cs \<Longrightarrow> scan (Outside, out) cs = (Outside, out)"
  by (induction cs) auto

lemma step_chars: "charsOf (step s c) \<subseteq> charsOf s \<union> {c, CHR 0x27}"
proof (cases s)
  case (Pair st out)
  then show ?thesis
    by (cases st) (auto simp: charsOf_def Let_def)
qed

lemma scan_chars: "charsOf (scan s cs) \<subseteq> charsOf s \<union> set cs \<union> {CHR 0x27}"
proof (induction cs arbitrary: s)
  case Nil
  then show ?case by auto
next
  case (Cons c cs)
  have "charsOf (scan (step s c) cs) \<subseteq> charsOf (step s c) \<union> set cs \<union> {CHR 0x27}"
    by (rule Cons.IH)
  with step_chars[of s c] show ?case by auto
qed

text \<open>
  The result in terms of the state reached on the text alone, before the appended
  asterisk is read.
\<close>

lemma extractStrings_before_sentinel:
  "extractStrings text =
     (case scan (Outside, []) text of
        (Outside, ex) \<Rightarrow> Inr ex
      | (Inside p, ex) \<Rightarrow> Inl UnmatchedSingleQuote
      | (Transition p, ex) \<Rightarrow> Inr (ex @ [p]))"
proof (cases "scan (Outside, []) text")
  case (Pair st ex)
  then show ?thesis
    by (cases st) (simp_all add: extractStrings_def scan_append)
qed

subsection \<open>What the function does with single quotes\<close>

text \<open>
  Claim C1 (round trip of the generated input-output pairs). The claim: the text made
  of the \<^verbatim>\<open>repr\<close> of each string, joined by separators without single quotes,
  extracts to the strings. The function compares each character with the double quote,
  so on the generated text of the one string \<open>a\<close> between two empty separators,
  which is quote, \<open>a\<close>, quote, it returns no string at all.
\<close>

theorem roundtrip_single_quote_input_lost:
  "validPortions [[], []] [''a''] \<and>
   textOf [[], []] [''a''] = [CHR 0x27, CHR ''a'', CHR 0x27] \<and>
   extractStrings (textOf [[], []] [''a'']) = Inr [] \<and>
   extractStrings (textOf [[], []] [''a'']) \<noteq> Inr [''a'']"
  by (simp add: validPortions_def textOf_def repr_def extractStrings_def)

text \<open>
  Claim C2 (transition rules with the single quote as the delimiter). The loop body
  does not treat the single quote as the delimiter: outside a string a single quote
  leaves the state outside, where the claim opens a string; inside a string a single
  quote is appended to the parsed characters, where the claim moves to the pending
  state without appending; and a double quote inside a string, which is not a single
  quote, is not appended but moves to the pending state.
\<close>

theorem step_single_quote_not_delimiter:
  "step (Outside, []) (CHR 0x27) = (Outside, []) \<and>
   step (Outside, []) (CHR 0x27) \<noteq> (Inside [], []) \<and>
   step (Inside ''a'', []) (CHR 0x27) = (Inside [CHR ''a'', CHR 0x27], []) \<and>
   step (Inside ''a'', []) (CHR 0x27) \<noteq> (Transition ''a'', []) \<and>
   step (Inside ''a'', []) (CHR 0x22) = (Transition ''a'', []) \<and>
   step (Inside ''a'', []) (CHR 0x22) \<noteq> (Inside [CHR ''a'', CHR 0x22], [])"
  by simp

text \<open>
  Claim C3 (a text with an odd number of single quotes fails). The five texts of the
  unit test, each with an odd number of single quotes, do not fail: the function
  returns the empty list for each of them.
\<close>

theorem odd_single_quotes_accepted:
  "extractStrings [CHR 0x27] = Inr [] \<and>
   extractStrings [CHR 0x27, CHR ''a'', CHR ''b'', CHR ''c''] = Inr [] \<and>
   extractStrings [CHR ''a'', CHR ''b'', CHR ''c'', CHR 0x27] = Inr [] \<and>
   extractStrings [CHR ''a'', CHR 0x27, CHR ''b'', CHR 0x27, CHR ''c'', CHR 0x27, CHR ''d'']
     = Inr [] \<and>
   extractStrings
     [CHR 0x27, CHR 0x27, CHR 0x27, CHR ''a'', CHR ''b'', CHR ''c'',
      CHR 0x27, CHR 0x27, CHR 0x27, CHR ''d'', CHR ''e'', CHR ''f'',
      CHR 0x27, CHR 0x27, CHR 0x27] = Inr []"
  by (simp add: extractStrings_def)

text \<open>
  Claim C4 (adjacent literals merge). On the six characters quote, \<open>a\<close>, quote,
  quote, \<open>b\<close>, quote, with single quotes, the function returns the empty list, not
  the one string \<open>a\<close>, quote, \<open>b\<close>.
\<close>

theorem adjacent_literals_input_empty:
  "extractStrings [CHR 0x27, CHR ''a'', CHR 0x27, CHR 0x27, CHR ''b'', CHR 0x27] = Inr [] \<and>
   extractStrings [CHR 0x27, CHR ''a'', CHR 0x27, CHR 0x27, CHR ''b'', CHR 0x27]
     \<noteq> Inr [[CHR ''a'', CHR 0x27, CHR ''b'']]"
  by (simp add: extractStrings_def)

text \<open>
  Claim C6 (a text without single quotes yields the empty result). The two texts the
  claim names, the empty text and \<open>hello world\<close>, yield the empty list. The text
  double quote, \<open>a\<close>, double quote holds no single quote and yields the string
  \<open>a\<close>.
\<close>

theorem double_quoted_text_without_single_quote:
  "extractStrings [] = Inr [] \<and>
   extractStrings ''hello world'' = Inr [] \<and>
   CHR 0x27 \<notin> set [CHR 0x22, CHR ''a'', CHR 0x22] \<and>
   extractStrings [CHR 0x22, CHR ''a'', CHR 0x22] = Inr [''a'']"
  by (simp add: extractStrings_def)

subsection \<open>Failure and result\<close>

text \<open>
  Claim C5 (raises-iff and atomicity). The function fails exactly when the state
  after the last character of the text followed by the asterisk is not
  \<open>Outside\<close>; a failure is the unmatched-quote error and carries no strings; a
  success returns the whole list of extracted strings of that run.
\<close>

theorem extractStrings_raises_iff:
  "((\<exists>e. extractStrings text = Inl e) \<longleftrightarrow>
      fst (scan (Outside, []) (text @ ''*'')) \<noteq> Outside) \<and>
   (\<forall>e. extractStrings text = Inl e \<longrightarrow> e = UnmatchedSingleQuote) \<and>
   (\<forall>out. extractStrings text = Inr out \<longrightarrow>
      out = snd (scan (Outside, []) (text @ ''*'')))"
  by (cases "scan (Outside, []) (text @ ''*'')")
    (auto simp: extractStrings_def intro: error.exhaust)

theorem extractStrings_raises_iff_witness:
  "extractStrings [CHR 0x22, CHR ''a''] = Inl UnmatchedSingleQuote \<and>
   fst (scan (Outside, []) ([CHR 0x22, CHR ''a''] @ ''*'')) \<noteq> Outside \<and>
   extractStrings [CHR 0x22, CHR ''a'', CHR 0x22] = Inr [''a''] \<and>
   [''a''] = snd (scan (Outside, []) ([CHR 0x22, CHR ''a'', CHR 0x22] @ ''*''))"
  using extractStrings_raises_iff [of "[CHR 0x22, CHR ''a'']"]
    extractStrings_raises_iff [of "[CHR 0x22, CHR ''a'', CHR 0x22]"]
  by (simp add: extractStrings_def)

text \<open>
  Claim C7 (sentinel containment). The appended asterisk is not the character the
  loop compares with: read outside a string it leaves the state outside, read inside
  a string it is appended as any other character (and the call then fails), and read
  after a quote it closes the string without being appended. The result of the
  function is fixed by the state reached on the text alone: every returned string is
  either extracted before the asterisk is read or is the string parsed up to the
  closing quote that the asterisk confirms. So the asterisk is in no returned string;
  in particular, when the text holds no asterisk, no returned string holds one.
\<close>

theorem sentinel_containment:
  "(\<forall>out. step (Outside, out) (CHR ''*'') = (Outside, out)) \<and>
   (\<forall>p out. step (Inside p, out) (CHR ''*'') = (Inside (p @ ''*''), out)) \<and>
   (\<forall>p out. step (Transition p, out) (CHR ''*'') = (Outside, out @ [p])) \<and>
   extractStrings text =
     (case scan (Outside, []) text of
        (Outside, ex) \<Rightarrow> Inr ex
      | (Inside p, ex) \<Rightarrow> Inl UnmatchedSingleQuote
      | (Transition p, ex) \<Rightarrow> Inr (ex @ [p])) \<and>
   (\<forall>out. CHR ''*'' \<notin> set text \<longrightarrow> extractStrings text = Inr out \<longrightarrow>
      (\<forall>s \<in> set out. CHR ''*'' \<notin> set s))"
proof (intro conjI allI impI ballI)
  fix out s
  assume star: "CHR ''*'' \<notin> set text" and res: "extractStrings text = Inr out"
    and s: "s \<in> set out"
  obtain st ex where sc: "scan (Outside, []) text = (st, ex)"
    by (cases "scan (Outside, []) text")
  have "charsOf (st, ex) \<subseteq> set text \<union> {CHR 0x27}"
    using scan_chars [of "(Outside, [])" "text"] sc by (simp add: charsOf_def)
  moreover have "set s \<subseteq> charsOf (st, ex)"
    using res s sc unfolding extractStrings_before_sentinel
    by (cases st) (auto simp: charsOf_def)
  ultimately show "CHR ''*'' \<notin> set s" using star by auto
qed (simp_all add: extractStrings_before_sentinel)

theorem sentinel_containment_witness:
  "CHR ''*'' \<notin> set [CHR 0x22, CHR ''a'', CHR 0x22] \<and>
   extractStrings [CHR 0x22, CHR ''a'', CHR 0x22] = Inr [''a''] \<and>
   CHR ''*'' \<notin> set ''a''"
  using sentinel_containment [of "[CHR 0x22, CHR ''a'', CHR 0x22]"]
  by (simp add: extractStrings_def)

subsection \<open>What the function does with double quotes\<close>

text \<open>
  Claim C8. A text without a double quote extracts to the empty list, whatever single
  quotes it holds: the text quote, \<open>abc\<close>, quote, with single quotes, extracts to
  the empty list.
\<close>

theorem no_double_quote_empty:
  "(CHR 0x22 \<notin> set text \<longrightarrow> extractStrings text = Inr []) \<and>
   extractStrings [CHR 0x27, CHR ''a'', CHR ''b'', CHR ''c'', CHR 0x27] = Inr []"
  by (simp add: extractStrings_def scan_append scan_Outside_plain)

theorem no_double_quote_empty_witness:
  "CHR 0x22 \<notin> set [CHR ''i'', CHR ''t'', CHR 0x27, CHR ''s''] \<and>
   extractStrings [CHR ''i'', CHR ''t'', CHR 0x27, CHR ''s''] = Inr []"
  using no_double_quote_empty [of "[CHR ''i'', CHR ''t'', CHR 0x27, CHR ''s'']"]
  by simp

text \<open>
  Claim C9. Two double quotes in a row inside a string append one single quote, a
  constant, to the parsed characters, and the string stays open: the text double
  quote, \<open>a\<close>, double quote, double quote, \<open>b\<close>, double quote extracts to the one
  string \<open>a\<close>, single quote, \<open>b\<close>.
\<close>

theorem escaped_quote_constant:
  "scan (Inside p, out) (CHR 0x22 # CHR 0x22 # cs)
     = scan (Inside (p @ [CHR 0x27]), out) cs \<and>
   extractStrings [CHR 0x22, CHR ''a'', CHR 0x22, CHR 0x22, CHR ''b'', CHR 0x22]
     = Inr [[CHR ''a'', CHR 0x27, CHR ''b'']]"
  by (simp add: extractStrings_def)

section \<open>Properties of Subsequence Indices\<close>

text \<open>
  The loop invariant: both indices are in range, the indices collected so far are
  strictly ascending, below \<open>ai\<close>, and select the first \<open>si\<close> elements of
  \<open>sub\<close>; and if \<open>sub\<close> is a subsequence of \<open>arr\<close> at all, then what is left of
  \<open>sub\<close> is a subsequence of what is left of \<open>arr\<close>. From a state that satisfies
  it the loop returns, and what it returns is right.
\<close>

lemma loop_correct:
  assumes "ai \<le> length arr" "si \<le> length sub"
    and "sorted_wrt (<) idx" "\<forall>i\<in>set idx. i < ai"
    and "map ((!) arr) idx = take si sub"
    and "subseq sub arr \<longrightarrow> subseq (drop si sub) (drop ai arr)"
  shows "\<exists>r. loop arr sub idx ai si = Some r \<and>
           (case r of
              Some ixs \<Rightarrow>
                sorted_wrt (<) ixs \<and> (\<forall>i\<in>set ixs. i < length arr) \<and> map ((!) arr) ixs = sub
            | None \<Rightarrow> \<not> subseq sub arr)"
  using assms
proof (induction "length arr - ai" arbitrary: ai si idx)
  case 0
  then have ai: "ai = length arr" by simp
  show ?case
  proof (cases "si = length sub")
    case True
    with 0 ai show ?thesis
      by (subst loop.simps) (auto simp: reachedEndOfList_def)
  next
    case False
    with 0 have "drop si sub \<noteq> []" by simp
    with 0 ai have "\<not> subseq sub arr" by auto
    with False ai show ?thesis
      by (subst loop.simps) (simp add: reachedEndOfList_def)
  qed
next
  case (Suc n)
  then have ai: "ai < length arr" by simp
  show ?case
  proof (cases "si = length sub")
    case True
    with Suc.prems ai show ?thesis
      by (subst loop.simps) (auto simp: reachedEndOfList_def)
  next
    case False
    with Suc.prems have si: "si < length sub" by simp
    have dsub: "drop si sub = sub ! si # drop (Suc si) sub"
      using si by (simp add: Cons_nth_drop_Suc)
    have darr: "drop ai arr = arr ! ai # drop (Suc ai) arr"
      using ai by (simp add: Cons_nth_drop_Suc)
    have n: "n = length arr - Suc ai" using Suc.hyps(2) by simp
    show ?thesis
    proof (cases "arr ! ai = sub ! si")
      case True
      have "\<exists>r. loop arr sub (idx @ [ai]) (Suc ai) (Suc si) = Some r \<and>
           (case r of
              Some ixs \<Rightarrow>
                sorted_wrt (<) ixs \<and> (\<forall>i\<in>set ixs. i < length arr) \<and> map ((!) arr) ixs = sub
            | None \<Rightarrow> \<not> subseq sub arr)"
      proof (rule Suc.hyps(1)[OF n])
        show "Suc ai \<le> length arr" using ai by simp
        show "Suc si \<le> length sub" using si by simp
        show "sorted_wrt (<) (idx @ [ai])" using Suc.prems by (simp add: sorted_wrt_append)
        show "\<forall>i\<in>set (idx @ [ai]). i < Suc ai" using Suc.prems by auto
        show "map ((!) arr) (idx @ [ai]) = take (Suc si) sub"
          using Suc.prems True si by (simp add: take_Suc_conv_app_nth)
        show "subseq sub arr \<longrightarrow> subseq (drop (Suc si) sub) (drop (Suc ai) arr)"
          using Suc.prems(6) dsub darr True by auto
      qed
      moreover have "loop arr sub idx ai si = loop arr sub (idx @ [ai]) (Suc ai) (Suc si)"
        using True ai si False
        by (subst loop.simps) (simp add: reachedEndOfList_def at_def)
      ultimately show ?thesis by simp
    next
      case neq: False
      have "\<exists>r. loop arr sub idx (Suc ai) si = Some r \<and>
           (case r of
              Some ixs \<Rightarrow>
                sorted_wrt (<) ixs \<and> (\<forall>i\<in>set ixs. i < length arr) \<and> map ((!) arr) ixs = sub
            | None \<Rightarrow> \<not> subseq sub arr)"
      proof (rule Suc.hyps(1)[OF n])
        show "Suc ai \<le> length arr" using ai by simp
        show "si \<le> length sub" using si by simp
        show "sorted_wrt (<) idx" using Suc.prems by simp
        show "\<forall>i\<in>set idx. i < Suc ai" using Suc.prems by auto
        show "map ((!) arr) idx = take si sub" using Suc.prems by simp
        show "subseq sub arr \<longrightarrow> subseq (drop si sub) (drop (Suc ai) arr)"
          using Suc.prems(6) dsub darr neq by (auto simp: subseq_Cons2_neq)
      qed
      moreover have "loop arr sub idx ai si = loop arr sub idx (Suc ai) si"
        using neq ai si False
        by (subst loop.simps) (simp add: reachedEndOfList_def at_def)
      ultimately show ?thesis by simp
    qed
  qed
qed

text \<open>
  Claim C10. For all lists \<open>arr\<close> and \<open>sub\<close> the function returns. It returns
  either a strictly ascending list of indices, each in the bounds of \<open>arr\<close>, at
  which \<open>arr\<close> holds the elements of \<open>sub\<close> in order, or \<^verbatim>\<open>null\<close>; and it
  returns \<^verbatim>\<open>null\<close> only when \<open>sub\<close> is not a subsequence of \<open>arr\<close>.
\<close>

theorem subsequence_indices_correct:
  "(\<exists>ixs. subsequence_indices arr sub = Some (Some ixs) \<and>
      sorted_wrt (<) ixs \<and> (\<forall>i\<in>set ixs. i < length arr) \<and> map ((!) arr) ixs = sub) \<or>
   (subsequence_indices arr sub = Some None \<and> \<not> subseq sub arr)"
proof -
  have "\<exists>r. loop arr sub [] 0 0 = Some r \<and>
           (case r of
              Some ixs \<Rightarrow>
                sorted_wrt (<) ixs \<and> (\<forall>i\<in>set ixs. i < length arr) \<and> map ((!) arr) ixs = sub
            | None \<Rightarrow> \<not> subseq sub arr)"
    by (rule loop_correct) simp_all
  then obtain r where run: "loop arr sub [] 0 0 = Some r"
    and r: "case r of
              Some ixs \<Rightarrow>
                sorted_wrt (<) ixs \<and> (\<forall>i\<in>set ixs. i < length arr) \<and> map ((!) arr) ixs = sub
            | None \<Rightarrow> \<not> subseq sub arr"
    by blast
  show ?thesis
  proof (cases r)
    case None
    with run r show ?thesis by (simp add: subsequence_indices_def)
  next
    case (Some ixs)
    with run r show ?thesis by (simp add: subsequence_indices_def)
  qed
qed

theorem subsequence_indices_correct_witness:
  "subsequence_indices [3, 1, 4, 1, 5, 9 :: int] [4, 1, 9] = Some (Some [2, 3, 5]) \<and>
   sorted_wrt (<) [2, 3, 5 :: nat] \<and>
   list_all (\<lambda>i. i < length [3, 1, 4, 1, 5, 9 :: int]) [2, 3, 5] \<and>
   map ((!) [3, 1, 4, 1, 5, 9 :: int]) [2, 3, 5] = [4, 1, 9] \<and>
   subsequence_indices [2, 6, 5 :: int] [2, 4] = Some None \<and>
   \<not> subseq [2, 4] [2, 6, 5 :: int]"
  using subsequence_indices_correct [of "[3, 1, 4, 1, 5, 9 :: int]" "[4, 1, 9]"]
    subsequence_indices_correct [of "[2, 6, 5 :: int]" "[2, 4]"]
  by (simp add: subsequence_indices_def loop.simps reachedEndOfList_def at_def)

end
